theory Spec2Isabelle
  imports Main "HOL-Library.Word"
begin

section \<open>The s390 arch random buffer (arch/s390/crypto/arch_random.c)\<close>

text \<open>
  The file keeps a 2048-byte buffer of pseudo-random bytes, an unsigned 32-bit index
  \<open>arch_rng_buf_idx\<close> into it (the number of bytes still to be served), a 64-bit
  counter of the bytes handed out and a static key that tells the rest of the kernel
  that the buffer may be used. \<open>s390_arch_random_generate\<close> serves requests from
  the tail of the buffer, \<open>arch_rng_refill_buffer\<close> is the delayed work that refills
  it, and \<open>s390_arch_random_init\<close> sets everything up at boot.
\<close>

subsection \<open>Types and constants\<close>

type_synonym u8 = "8 word"
type_synonym u32 = "32 word"
type_synonym u64 = "64 word"

text \<open>\<open>HZ\<close> is the tick rate of the kernel configuration. It is not fixed by the
  file, so every definition that needs it takes it as an argument.\<close>

definition ARCH_REFILL_TICKS :: "u32 \<Rightarrow> u32" where
  "ARCH_REFILL_TICKS HZ = HZ div 2"

definition ARCH_PRNG_SEED_SIZE :: nat where
  "ARCH_PRNG_SEED_SIZE = 32"

definition ARCH_RNG_BUF_SIZE :: u32 where
  "ARCH_RNG_BUF_SIZE = 2048"

text \<open>The file-level variables. \<open>arch_rng_buf\<close> is a pointer: \<open>None\<close> is the
  null pointer it holds before the allocation, \<open>Some b\<close> the allocated block with
  its bytes. The spin lock is not a field: each critical section of the file runs from
  taking the lock to releasing it, so a call is one atomic step, and whether
  \<open>spin_trylock\<close> succeeds is an input decided by the other CPUs.\<close>

record rng_state =
  s390_arch_random_available :: bool
  s390_arch_random_counter :: u64
  arch_rng_buf :: "u8 list option"
  arch_rng_buf_idx :: u32

text \<open>The variables as the C initialisers leave them when the kernel starts.\<close>

definition boot_state :: rng_state where
  "boot_state =
     \<lparr>s390_arch_random_available = False, s390_arch_random_counter = 0,
      arch_rng_buf = None, arch_rng_buf_idx = 0\<rparr>"

subsection \<open>The services the file calls\<close>

text \<open>What a call of \<open>memcpy\<close> from the random buffer leaves in the caller's
  buffer. A read through the null pointer or past the end of the block is not
  defined in C; the model reports it instead of inventing bytes.\<close>

datatype copied = Untouched | Copied "u8 list" | Invalid_read

definition memcpy :: "u8 list option \<Rightarrow> nat \<Rightarrow> nat \<Rightarrow> copied" where
  "memcpy src off n =
     (case src of
        None \<Rightarrow> Invalid_read
      | Some b \<Rightarrow> if off + n \<le> length b then Copied (take n (drop off b)) else Invalid_read)"

text \<open>A source of bytes outside the file (the TRNG, the DRNG output, the contents of
  fresh memory) is given byte by byte; a call takes as many bytes as it asks for.\<close>

definition bytes_of :: "(nat \<Rightarrow> u8) \<Rightarrow> nat \<Rightarrow> u8 list" where
  "bytes_of f n = map f [0..<n]"

text \<open>The CPACF instructions used by the refill: \<open>cpacf_trng\<close> delivers true random
  bytes, \<open>cpacf_prno_seed\<close> is the PRNO function SHA512-DRNG-SEED (parameter block
  and seed to parameter block), \<open>cpacf_prno_gen\<close> is SHA512-DRNG-GEN (the bytes
  generated from a parameter block).\<close>

record cpacf =
  cpacf_trng :: "nat \<Rightarrow> u8"
  cpacf_prno_seed :: "u8 list \<Rightarrow> u8 list \<Rightarrow> u8 list"
  cpacf_prno_gen :: "u8 list \<Rightarrow> nat \<Rightarrow> u8"

text \<open>The calls into the rest of the kernel and into the hardware, in the order in
  which a function makes them.\<close>

datatype event =
    Kmalloc nat
  | Queue_delayed_work u64
  | Static_branch_enable
  | CPACF_PRNO_TRNG nat
  | CPACF_PRNO_SHA512_DRNG_SEED "u8 list"
  | CPACF_PRNO_SHA512_DRNG_GEN nat

datatype errno = ENOMEM

subsection \<open>The three functions\<close>

text \<open>\<open>s390_arch_random_generate(buf, nbytes)\<close>. The result is the return value,
  what happened to \<open>buf\<close>, and the variables after the call.\<close>

definition s390_arch_random_generate ::
  "rng_state \<Rightarrow> bool \<Rightarrow> u32 \<Rightarrow> bool \<times> copied \<times> rng_state" where
  "s390_arch_random_generate st spin_trylock nbytes =
     (if nbytes > ARCH_RNG_BUF_SIZE then (False, Untouched, st)
      else if \<not> spin_trylock then (False, Untouched, st)
      else
        let st1 = st\<lparr>arch_rng_buf_idx := arch_rng_buf_idx st - nbytes\<rparr> in
        if arch_rng_buf_idx st1 < ARCH_RNG_BUF_SIZE then
          (True,
           memcpy (arch_rng_buf st1) (unat (arch_rng_buf_idx st1)) (unat nbytes),
           st1\<lparr>s390_arch_random_counter := s390_arch_random_counter st1 + ucast nbytes\<rparr>)
        else (False, Untouched, st1))"

text \<open>The same function with the calls it makes on \<open>arch_rng_lock\<close>, in the order
  in which it makes them, next to its result: \<open>Spin_trylock r\<close> is a call of
  \<open>spin_trylock\<close> that returned \<open>r\<close>, \<open>Spin_unlock\<close> a call of
  \<open>spin_unlock\<close>. The size test comes before the first call; a failed
  \<open>spin_trylock\<close> is followed by no other call; once the lock is taken, both ways
  out release it.\<close>

datatype lock_call = Spin_trylock bool | Spin_unlock

definition s390_arch_random_generate_locking ::
  "rng_state \<Rightarrow> bool \<Rightarrow> u32 \<Rightarrow> (bool \<times> copied \<times> rng_state) \<times> lock_call list" where
  "s390_arch_random_generate_locking st spin_trylock nbytes =
     (if nbytes > ARCH_RNG_BUF_SIZE then ((False, Untouched, st), [])
      else if \<not> spin_trylock then ((False, Untouched, st), [Spin_trylock False])
      else
        let st1 = st\<lparr>arch_rng_buf_idx := arch_rng_buf_idx st - nbytes\<rparr> in
        if arch_rng_buf_idx st1 < ARCH_RNG_BUF_SIZE then
          ((True,
            memcpy (arch_rng_buf st1) (unat (arch_rng_buf_idx st1)) (unat nbytes),
            st1\<lparr>s390_arch_random_counter := s390_arch_random_counter st1 + ucast nbytes\<rparr>),
           [Spin_trylock True, Spin_unlock])
        else ((False, Untouched, st1), [Spin_trylock True, Spin_unlock]))"

text \<open>\<open>arch_rng_refill_buffer\<close>, the work function. \<open>spin_lock\<close> waits for the
  lock, and every holder releases it after a bounded section, so the function always
  gets to run its section. The second component lists the calls it makes; the last one
  is always the \<open>queue_delayed_work\<close> that re-arms the work.\<close>

definition arch_rng_refill_buffer ::
  "u32 \<Rightarrow> cpacf \<Rightarrow> rng_state \<Rightarrow> rng_state \<times> event list" where
  "arch_rng_refill_buffer HZ hw st =
     (let delay = ARCH_REFILL_TICKS HZ;
          (st1, evs) =
            (if arch_rng_buf_idx st > ARCH_RNG_BUF_SIZE then
               let seed = bytes_of (cpacf_trng hw) ARCH_PRNG_SEED_SIZE;
                   prng_wa = replicate 240 0;
                   prng_wa = cpacf_prno_seed hw prng_wa seed;
                   fresh = bytes_of (cpacf_prno_gen hw prng_wa) (unat ARCH_RNG_BUF_SIZE)
               in (st\<lparr>arch_rng_buf := map_option (\<lambda>_. fresh) (arch_rng_buf st),
                       arch_rng_buf_idx := ARCH_RNG_BUF_SIZE\<rparr>,
                   [CPACF_PRNO_TRNG ARCH_PRNG_SEED_SIZE,
                    CPACF_PRNO_SHA512_DRNG_SEED seed,
                    CPACF_PRNO_SHA512_DRNG_GEN (unat ARCH_RNG_BUF_SIZE)])
             else (st, []));
          delay = delay + (ARCH_REFILL_TICKS HZ * arch_rng_buf_idx st1) div ARCH_RNG_BUF_SIZE
      in (st1, evs @ [Queue_delayed_work (ucast delay)]))"

text \<open>\<open>s390_arch_random_init\<close>. \<open>has_trng\<close> and \<open>has_drng_gen\<close> are the answers
  of the two \<open>cpacf_query_func\<close> calls; \<open>kmalloc\<close> is the answer of the allocator:
  \<open>None\<close> when it fails, otherwise the (uninitialised) contents of the new block.\<close>

definition s390_arch_random_init ::
  "u32 \<Rightarrow> bool \<Rightarrow> bool \<Rightarrow> (nat \<Rightarrow> u8) option \<Rightarrow> rng_state
     \<Rightarrow> (errno + int) \<times> rng_state \<times> event list" where
  "s390_arch_random_init HZ has_trng has_drng_gen kmalloc st =
     (if has_trng \<and> has_drng_gen then
        (case kmalloc of
           None \<Rightarrow>
             (Inl ENOMEM, st\<lparr>arch_rng_buf := None\<rparr>, [Kmalloc (unat ARCH_RNG_BUF_SIZE)])
         | Some mem \<Rightarrow>
             (Inr 0,
              st\<lparr>arch_rng_buf := Some (bytes_of mem (unat ARCH_RNG_BUF_SIZE)),
                  s390_arch_random_available := True\<rparr>,
              [Kmalloc (unat ARCH_RNG_BUF_SIZE),
               Queue_delayed_work (ucast (ARCH_REFILL_TICKS HZ)),
               Static_branch_enable]))
      else (Inr 0, st, []))"

subsection \<open>Sequences of calls\<close>

text \<open>After the initialisation the variables change only through calls of
  \<open>s390_arch_random_generate\<close> (with the outcome of its \<open>spin_trylock\<close> and the
  number of bytes asked for) and runs of the work function (with what the hardware
  delivers in that run).\<close>

datatype op = Extract bool u32 | Fire cpacf

fun step :: "u32 \<Rightarrow> rng_state \<Rightarrow> op \<Rightarrow> rng_state" where
  "step HZ st (Extract spin_trylock nbytes) =
     snd (snd (s390_arch_random_generate st spin_trylock nbytes))"
| "step HZ st (Fire hw) = fst (arch_rng_refill_buffer HZ hw st)"

fun run :: "u32 \<Rightarrow> rng_state \<Rightarrow> op list \<Rightarrow> rng_state" where
  "run HZ st [] = st"
| "run HZ st (x # xs) = run HZ (step HZ st x) xs"

text \<open>The number of bytes asked for by the calls of a sequence that return true.\<close>

fun served :: "u32 \<Rightarrow> rng_state \<Rightarrow> op list \<Rightarrow> nat" where
  "served HZ st [] = 0"
| "served HZ st (Extract spin_trylock nbytes # xs) =
     (if fst (s390_arch_random_generate st spin_trylock nbytes) then unat nbytes else 0)
       + served HZ (step HZ st (Extract spin_trylock nbytes)) xs"
| "served HZ st (Fire hw # xs) = served HZ (step HZ st (Fire hw)) xs"

text \<open>The state in which the work function and the callers find the variables after
  a successful initialisation at boot, the new block holding the bytes \<open>mem\<close>.\<close>

definition init_state :: "u32 \<Rightarrow> (nat \<Rightarrow> u8) \<Rightarrow> rng_state" where
  "init_state HZ mem = fst (snd (s390_arch_random_init HZ True True (Some mem) boot_state))"

text \<open>A sequence of calls in which no request takes the lock while fewer bytes remain
  than it asks for (requests that are too large or that find the lock taken do not
  count: they do not touch the index).\<close>

fun no_underflow :: "u32 \<Rightarrow> rng_state \<Rightarrow> op list \<Rightarrow> bool" where
  "no_underflow HZ st [] = True"
| "no_underflow HZ st (Extract spin_trylock nbytes # xs) =
     (\<not> (spin_trylock \<and> nbytes \<le> ARCH_RNG_BUF_SIZE \<and> arch_rng_buf_idx st < nbytes)
      \<and> no_underflow HZ (step HZ st (Extract spin_trylock nbytes)) xs)"
| "no_underflow HZ st (Fire hw # xs) = no_underflow HZ (step HZ st (Fire hw)) xs"

text \<open>The requests of a list of sizes, made one after the other with the lock free
  each time: for each request its return value, the offset in the random buffer at
  which its copy starts, and its size. \<open>offsets\<close> lists the buffer offsets a
  request hands out.\<close>

fun requests :: "rng_state \<Rightarrow> u32 list \<Rightarrow> (bool \<times> nat \<times> nat) list" where
  "requests st [] = []"
| "requests st (nbytes # ns) =
     (fst (s390_arch_random_generate st True nbytes),
      unat (arch_rng_buf_idx (snd (snd (s390_arch_random_generate st True nbytes)))),
      unat nbytes)
       # requests (snd (snd (s390_arch_random_generate st True nbytes))) ns"

fun offsets :: "bool \<times> nat \<times> nat \<Rightarrow> nat list" where
  "offsets (ok, off, len) = (if ok then [off..<off + len] else [])"

text \<open>The delays of the \<open>queue_delayed_work\<close> calls in a list of calls.\<close>

fun queued_delays :: "event list \<Rightarrow> u64 list" where
  "queued_delays [] = []"
| "queued_delays (Queue_delayed_work d # evs) = d # queued_delays evs"
| "queued_delays (_ # evs) = queued_delays evs"

subsection \<open>Concrete inputs\<close>

text \<open>A machine for the examples: fresh memory is zeroed, the TRNG counts, the seed step
  puts the seed in front of the parameter block and the generate step counts from the
  length of the parameter block. \<open>HZ\<close> is 1000 in the examples, so the base delay
  \<open>ARCH_REFILL_TICKS\<close> is 500 ticks.\<close>

definition ex_mem :: "nat \<Rightarrow> u8" where
  "ex_mem = (\<lambda>_. 0)"

definition ex_hw :: cpacf where
  "ex_hw = \<lparr>cpacf_trng = of_nat, cpacf_prno_seed = (\<lambda>wa seed. seed @ wa),
             cpacf_prno_gen = (\<lambda>wa i. of_nat (length wa + i))\<rparr>"

text \<open>The state after boot; the state after the first request of one byte, which finds
  the buffer empty; the state after the work function has then run (the buffer is
  full); and the states after 2043, respectively 1024, of the 2048 bytes have been
  served from the full buffer.\<close>

definition ex_init :: rng_state where
  "ex_init = init_state 1000 ex_mem"

definition ex_wrapped :: rng_state where
  "ex_wrapped = run 1000 ex_init [Extract True 1]"

definition ex_full :: rng_state where
  "ex_full = run 1000 ex_wrapped [Fire ex_hw]"

definition ex_five :: rng_state where
  "ex_five = run 1000 ex_full [Extract True 2043]"

definition ex_half :: rng_state where
  "ex_half = run 1000 ex_full [Extract True 1024]"

text \<open>One round of use: a request for one byte finds the buffer empty, the work
  function refills it, and one request takes all 2048 bytes. \<open>ex_rounds\<close> is
  \<open>2^53 - 1\<close> such rounds, in which \<open>2^64 - 2048\<close> bytes are served, and the
  refill of the next round.\<close>

definition ex_round :: "op list" where
  "ex_round = [Extract True 1, Fire ex_hw, Extract True 2048]"

definition ex_rounds :: "op list" where
  "ex_rounds = concat (replicate 9007199254740991 ex_round) @ [Extract True 1, Fire ex_hw]"

section \<open>Properties\<close>

subsection \<open>Arithmetic of the index and of the delay\<close>

lemma length_bytes_of: "length (bytes_of f n) = n"
  by (simp add: bytes_of_def)

lemma unat_ucast_u32_u64: "unat (ucast (w :: u32) :: u64) = unat w"
proof -
  have "unat w < 2 ^ 32" using unsigned_less [of w] by simp
  then have "unat w < 2 ^ 64" by simp
  then show ?thesis by (simp add: unsigned_ucast_eq take_bit_nat_eq_self)
qed

lemma underflow_idx:
  fixes idx nbytes :: u32
  assumes "nbytes \<le> 2048" "idx < nbytes"
  shows "unat (idx - nbytes) = unat idx + 2 ^ 32 - unat nbytes"
    and "2048 < idx - nbytes"
  using assms by (simp_all add: unat_arith_simps)

lemma delay_exact:
  fixes HZ idx :: u32
  assumes "HZ < 2 ^ 22" "idx \<le> 2048"
  shows "unat (HZ div 2 + (HZ div 2 * idx) div 2048) =
    unat HZ div 2 + (unat HZ div 2 * unat idx) div 2048"
proof -
  have hz: "unat HZ < 2 ^ 22" using assms(1) by (simp add: word_less_nat_alt)
  have a: "unat (HZ div 2) = unat HZ div 2" by (simp add: unat_div)
  then have a_lt: "unat (HZ div 2) < 2 ^ 21" using hz by simp
  have i: "unat idx \<le> 2048" using assms(2) by (simp add: word_le_nat_alt)
  have le: "unat (HZ div 2) * unat idx \<le> unat (HZ div 2) * 2048" using i by simp
  also have "\<dots> < 2 ^ 21 * 2048" using a_lt by simp
  finally have "unat (HZ div 2) * unat idx < 2 ^ 32" by simp
  then have prod: "unat (HZ div 2 * idx) = unat (HZ div 2) * unat idx"
    using unat_mult_lem [of "HZ div 2" idx] by simp
  have q: "unat ((HZ div 2 * idx) div 2048) = (unat (HZ div 2) * unat idx) div 2048"
    by (simp add: unat_div prod)
  have "(unat (HZ div 2) * unat idx) div 2048 \<le> (unat (HZ div 2) * 2048) div 2048"
    using i by (intro div_le_mono) simp
  then have "(unat (HZ div 2) * unat idx) div 2048 \<le> unat (HZ div 2)" by simp
  then have "unat (HZ div 2) + unat ((HZ div 2 * idx) div 2048) < 2 ^ 32"
    using a_lt q by simp
  then have "unat (HZ div 2 + (HZ div 2 * idx) div 2048) =
      unat (HZ div 2) + unat ((HZ div 2 * idx) div 2048)"
    using unat_add_lem [of "HZ div 2" "(HZ div 2 * idx) div 2048"] by simp
  then show ?thesis using q a by simp
qed

subsection \<open>The branches of the functions\<close>

lemma generate_too_big:
  "ARCH_RNG_BUF_SIZE < nbytes \<Longrightarrow>
   s390_arch_random_generate st t nbytes = (False, Untouched, st)"
  by (simp add: s390_arch_random_generate_def)

lemma generate_locking_result:
  "fst (s390_arch_random_generate_locking st t nbytes) = s390_arch_random_generate st t nbytes"
  by (simp add: s390_arch_random_generate_locking_def s390_arch_random_generate_def Let_def)

lemma generate_locking_calls:
  "snd (s390_arch_random_generate_locking st t nbytes) =
    (if ARCH_RNG_BUF_SIZE < nbytes then []
     else if t then [Spin_trylock True, Spin_unlock]
     else [Spin_trylock False])"
  by (simp add: s390_arch_random_generate_locking_def Let_def)

lemma generate_contended:
  "s390_arch_random_generate st False nbytes = (False, Untouched, st)"
  by (simp add: s390_arch_random_generate_def)

lemma generate_short:
  assumes "nbytes \<le> ARCH_RNG_BUF_SIZE" "arch_rng_buf_idx st < nbytes"
  shows "s390_arch_random_generate st True nbytes =
    (False, Untouched, st\<lparr>arch_rng_buf_idx := arch_rng_buf_idx st - nbytes\<rparr>)"
  using assms underflow_idx(2) [of nbytes "arch_rng_buf_idx st"]
  by (auto simp add: s390_arch_random_generate_def ARCH_RNG_BUF_SIZE_def Let_def)

lemma generate_locked:
  assumes "nbytes \<le> ARCH_RNG_BUF_SIZE"
  shows "s390_arch_random_generate st True nbytes =
    (if arch_rng_buf_idx st - nbytes < ARCH_RNG_BUF_SIZE then
       (True,
        memcpy (arch_rng_buf st) (unat (arch_rng_buf_idx st - nbytes)) (unat nbytes),
        st\<lparr>arch_rng_buf_idx := arch_rng_buf_idx st - nbytes,
           s390_arch_random_counter := s390_arch_random_counter st + ucast nbytes\<rparr>)
     else (False, Untouched, st\<lparr>arch_rng_buf_idx := arch_rng_buf_idx st - nbytes\<rparr>))"
  using assms by (simp add: s390_arch_random_generate_def Let_def not_less [symmetric])

lemma refill_state:
  "fst (arch_rng_refill_buffer HZ hw st) =
    (if ARCH_RNG_BUF_SIZE < arch_rng_buf_idx st then
       st\<lparr>arch_rng_buf :=
            map_option
              (\<lambda>_. bytes_of
                 (cpacf_prno_gen hw
                    (cpacf_prno_seed hw (replicate 240 0) (bytes_of (cpacf_trng hw) 32)))
                 2048)
              (arch_rng_buf st),
          arch_rng_buf_idx := ARCH_RNG_BUF_SIZE\<rparr>
     else st)"
  by (simp add: arch_rng_refill_buffer_def Let_def ARCH_RNG_BUF_SIZE_def
      ARCH_PRNG_SEED_SIZE_def)

lemma refill_events:
  "snd (arch_rng_refill_buffer HZ hw st) =
    (if ARCH_RNG_BUF_SIZE < arch_rng_buf_idx st then
       [CPACF_PRNO_TRNG 32,
        CPACF_PRNO_SHA512_DRNG_SEED (bytes_of (cpacf_trng hw) 32),
        CPACF_PRNO_SHA512_DRNG_GEN 2048]
     else []) @
    [Queue_delayed_work
       (ucast (HZ div 2 +
          (HZ div 2 * arch_rng_buf_idx (fst (arch_rng_refill_buffer HZ hw st))) div 2048))]"
  by (simp add: arch_rng_refill_buffer_def Let_def ARCH_RNG_BUF_SIZE_def
      ARCH_PRNG_SEED_SIZE_def ARCH_REFILL_TICKS_def)

lemma refill_idx_le:
  "arch_rng_buf_idx (fst (arch_rng_refill_buffer HZ hw st)) \<le> ARCH_RNG_BUF_SIZE"
  by (simp add: refill_state not_less)

subsection \<open>The concrete states\<close>

lemma ex_init_eq:
  "ex_init = \<lparr>s390_arch_random_available = True, s390_arch_random_counter = 0,
      arch_rng_buf = Some (bytes_of ex_mem 2048), arch_rng_buf_idx = 0\<rparr>"
  by (simp add: ex_init_def init_state_def s390_arch_random_init_def boot_state_def
      ARCH_RNG_BUF_SIZE_def)

lemma ex_wrapped_eq:
  "ex_wrapped = ex_init\<lparr>arch_rng_buf_idx := 0xFFFFFFFF\<rparr>"
  by (simp add: ex_wrapped_def ex_init_eq generate_locked ARCH_RNG_BUF_SIZE_def)

lemma ex_full_eq:
  "ex_full = \<lparr>s390_arch_random_available = True, s390_arch_random_counter = 0,
      arch_rng_buf = Some (bytes_of
         (cpacf_prno_gen ex_hw
            (cpacf_prno_seed ex_hw (replicate 240 0) (bytes_of (cpacf_trng ex_hw) 32)))
         2048),
      arch_rng_buf_idx = 2048\<rparr>"
  by (simp add: ex_full_def ex_wrapped_eq ex_init_eq refill_state ARCH_RNG_BUF_SIZE_def)

lemma ex_five_eq:
  "ex_five = ex_full\<lparr>arch_rng_buf_idx := 5, s390_arch_random_counter := 2043\<rparr>"
  by (simp add: ex_five_def ex_full_eq generate_locked ARCH_RNG_BUF_SIZE_def)

lemma ex_half_eq:
  "ex_half = ex_full\<lparr>arch_rng_buf_idx := 1024, s390_arch_random_counter := 1024\<rparr>"
  by (simp add: ex_half_def ex_full_eq generate_locked ARCH_RNG_BUF_SIZE_def)


subsection \<open>Requests larger than the buffer\<close>

text \<open>C9: a request for more than \<open>ARCH_RNG_BUF_SIZE\<close> bytes returns false at once,
  without a call of \<open>spin_trylock\<close> or any other call on the lock, whatever
  \<open>spin_trylock\<close> would have returned; the caller's buffer is not written, and the
  buffer, the index and the counter are as before.\<close>

theorem generate_oversized_rejected:
  assumes "ARCH_RNG_BUF_SIZE < nbytes"
  shows "s390_arch_random_generate_locking st spin_trylock nbytes =
      ((False, Untouched, st), [])
    \<and> s390_arch_random_generate st spin_trylock nbytes = (False, Untouched, st)"
  using assms generate_too_big [of nbytes st spin_trylock]
  by (simp add: s390_arch_random_generate_locking_def)

theorem generate_oversized_rejected_witness:
  "ARCH_RNG_BUF_SIZE < (2049 :: u32)
   \<and> s390_arch_random_generate_locking ex_five True 2049 = ((False, Untouched, ex_five), [])
   \<and> s390_arch_random_generate_locking ex_five False 2049 = ((False, Untouched, ex_five), [])
   \<and> s390_arch_random_generate ex_five True 2049 = (False, Untouched, ex_five)
   \<and> s390_arch_random_generate ex_five False 2049 = (False, Untouched, ex_five)
   \<and> snd (s390_arch_random_generate_locking ex_five True 2048) =
       [Spin_trylock True, Spin_unlock]
   \<and> snd (s390_arch_random_generate_locking ex_five False 2048) = [Spin_trylock False]"
proof -
  have h: "ARCH_RNG_BUF_SIZE < (2049 :: u32)" by (simp add: ARCH_RNG_BUF_SIZE_def)
  have c: "snd (s390_arch_random_generate_locking ex_five True 2048) =
        [Spin_trylock True, Spin_unlock]"
      "snd (s390_arch_random_generate_locking ex_five False 2048) = [Spin_trylock False]"
    by (simp_all add: generate_locking_calls ARCH_RNG_BUF_SIZE_def)
  show ?thesis
    using h c generate_oversized_rejected [OF h, of ex_five True]
      generate_oversized_rejected [OF h, of ex_five False]
    by simp
qed

subsection \<open>Requests for more bytes than remain\<close>

text \<open>C1, as the spec has it: with the lock taken, \<open>nbytes \<le> ARCH_RNG_BUF_SIZE\<close> and
  fewer than \<open>nbytes\<close> bytes remaining, the call returns false and leaves the index
  as it was. The code subtracts before it tests: in the state with 5 bytes remaining a
  request for 6 returns false and leaves the index at \<open>2^32 - 1\<close>, and the request
  for 5 bytes that follows returns false as well.\<close>

theorem generate_underflow_counterexample:
  "arch_rng_buf_idx ex_five = 5
   \<and> s390_arch_random_generate ex_five True 6 =
       (False, Untouched, ex_five\<lparr>arch_rng_buf_idx := 0xFFFFFFFF\<rparr>)
   \<and> arch_rng_buf_idx (snd (snd (s390_arch_random_generate ex_five True 6))) \<noteq> 5
   \<and> fst (s390_arch_random_generate
            (snd (snd (s390_arch_random_generate ex_five True 6))) True 5) = False"
  by (simp add: ex_five_eq ex_full_eq generate_locked ARCH_RNG_BUF_SIZE_def)

text \<open>C1, amended: with the lock taken, \<open>nbytes \<le> ARCH_RNG_BUF_SIZE\<close> and fewer than
  \<open>nbytes\<close> bytes remaining, the call returns false, writes nothing to the caller's
  buffer and leaves the random buffer, the counter and the flag as they were; the
  index becomes \<open>R - nbytes + 2^32\<close>.\<close>

theorem generate_underflow_wraps_index:
  assumes "nbytes \<le> ARCH_RNG_BUF_SIZE" and "arch_rng_buf_idx st < nbytes"
  shows "s390_arch_random_generate st True nbytes =
      (False, Untouched, st\<lparr>arch_rng_buf_idx := arch_rng_buf_idx st - nbytes\<rparr>)
    \<and> unat (arch_rng_buf_idx st - nbytes) = unat (arch_rng_buf_idx st) + 2 ^ 32 - unat nbytes"
  using assms generate_short [of nbytes st]
    underflow_idx(1) [of nbytes "arch_rng_buf_idx st"]
  by (simp add: ARCH_RNG_BUF_SIZE_def)

theorem generate_underflow_wraps_index_witness:
  "(6 :: u32) \<le> ARCH_RNG_BUF_SIZE \<and> arch_rng_buf_idx ex_five < 6
   \<and> s390_arch_random_generate ex_five True 6 =
       (False, Untouched, ex_five\<lparr>arch_rng_buf_idx := 0xFFFFFFFF\<rparr>)
   \<and> unat (arch_rng_buf_idx ex_five - 6) = 4294967295"
proof -
  have h1: "(6 :: u32) \<le> ARCH_RNG_BUF_SIZE" by (simp add: ARCH_RNG_BUF_SIZE_def)
  have h2: "arch_rng_buf_idx ex_five < 6" by (simp add: ex_five_eq)
  show ?thesis
    using h1 h2 generate_underflow_wraps_index [OF h1 h2] by (simp add: ex_five_eq)
qed

text \<open>C10: when a request of \<open>0 < nbytes \<le> ARCH_RNG_BUF_SIZE\<close> bytes takes the lock
  and finds fewer bytes, the index is \<open>R - nbytes + 2^32\<close> afterwards, which is
  above \<open>ARCH_RNG_BUF_SIZE\<close>; the work function, run in that state, takes it for
  exhaustion: it fetches the seed, seeds the DRNG, generates the whole buffer and sets
  the index to \<open>ARCH_RNG_BUF_SIZE\<close>.\<close>

theorem wrapped_index_triggers_refill:
  assumes "0 < nbytes" and "nbytes \<le> ARCH_RNG_BUF_SIZE" and "arch_rng_buf_idx st < nbytes"
  shows "unat (arch_rng_buf_idx (snd (snd (s390_arch_random_generate st True nbytes)))) =
      unat (arch_rng_buf_idx st) + 2 ^ 32 - unat nbytes
    \<and> ARCH_RNG_BUF_SIZE < arch_rng_buf_idx (snd (snd (s390_arch_random_generate st True nbytes)))
    \<and> fst (arch_rng_refill_buffer HZ hw (snd (snd (s390_arch_random_generate st True nbytes)))) =
        st\<lparr>arch_rng_buf :=
             map_option
               (\<lambda>_. bytes_of
                  (cpacf_prno_gen hw
                     (cpacf_prno_seed hw (replicate 240 0) (bytes_of (cpacf_trng hw) 32)))
                  2048)
               (arch_rng_buf st),
           arch_rng_buf_idx := ARCH_RNG_BUF_SIZE\<rparr>
    \<and> snd (arch_rng_refill_buffer HZ hw (snd (snd (s390_arch_random_generate st True nbytes)))) =
        [CPACF_PRNO_TRNG 32,
         CPACF_PRNO_SHA512_DRNG_SEED (bytes_of (cpacf_trng hw) 32),
         CPACF_PRNO_SHA512_DRNG_GEN 2048,
         Queue_delayed_work (ucast (HZ div 2 + (HZ div 2 * ARCH_RNG_BUF_SIZE) div 2048))]"
proof -
  let ?st' = "st\<lparr>arch_rng_buf_idx := arch_rng_buf_idx st - nbytes\<rparr>"
  have g: "snd (snd (s390_arch_random_generate st True nbytes)) = ?st'"
    using assms(2,3) by (simp add: generate_short)
  have u: "unat (arch_rng_buf_idx st - nbytes) = unat (arch_rng_buf_idx st) + 2 ^ 32 - unat nbytes"
    and w: "ARCH_RNG_BUF_SIZE < arch_rng_buf_idx st - nbytes"
    using assms(2,3) underflow_idx [of nbytes "arch_rng_buf_idx st"]
    by (simp_all add: ARCH_RNG_BUF_SIZE_def)
  have r: "fst (arch_rng_refill_buffer HZ hw ?st') =
      st\<lparr>arch_rng_buf :=
           map_option
             (\<lambda>_. bytes_of
                (cpacf_prno_gen hw
                   (cpacf_prno_seed hw (replicate 240 0) (bytes_of (cpacf_trng hw) 32)))
                2048)
             (arch_rng_buf st),
         arch_rng_buf_idx := ARCH_RNG_BUF_SIZE\<rparr>"
    using w by (simp add: refill_state)
  have e: "snd (arch_rng_refill_buffer HZ hw ?st') =
      [CPACF_PRNO_TRNG 32,
       CPACF_PRNO_SHA512_DRNG_SEED (bytes_of (cpacf_trng hw) 32),
       CPACF_PRNO_SHA512_DRNG_GEN 2048,
       Queue_delayed_work (ucast (HZ div 2 + (HZ div 2 * ARCH_RNG_BUF_SIZE) div 2048))]"
    using w by (simp add: refill_events r)
  show ?thesis
    unfolding g using u w r e by simp
qed

theorem wrapped_index_triggers_refill_witness:
  "(0 :: u32) < 1 \<and> (1 :: u32) \<le> ARCH_RNG_BUF_SIZE \<and> arch_rng_buf_idx ex_init < 1
   \<and> unat (arch_rng_buf_idx (snd (snd (s390_arch_random_generate ex_init True 1)))) = 4294967295
   \<and> arch_rng_buf_idx
       (fst (arch_rng_refill_buffer 1000 ex_hw
          (snd (snd (s390_arch_random_generate ex_init True 1))))) = 2048"
proof -
  have h1: "(0 :: u32) < 1" by simp
  have h2: "(1 :: u32) \<le> ARCH_RNG_BUF_SIZE" by (simp add: ARCH_RNG_BUF_SIZE_def)
  have h3: "arch_rng_buf_idx ex_init < 1" by (simp add: ex_init_eq)
  show ?thesis
    using h2 h3 wrapped_index_triggers_refill [OF h1 h2 h3, of 1000 ex_hw]
    by (simp add: ex_init_eq ARCH_RNG_BUF_SIZE_def)
qed

subsection \<open>When the work function refills\<close>

text \<open>C2, as the spec has it: the work function refills if and only if no bytes
  remain (\<open>R = 0\<close>). After boot the index is 0 and the buffer has never been
  filled, yet the work function makes no hardware call, leaves the buffer and the index
  as they are and only re-arms itself.\<close>

theorem refill_at_zero_counterexample:
  "arch_rng_buf_idx ex_init = 0
   \<and> arch_rng_refill_buffer 1000 ex_hw ex_init = (ex_init, [Queue_delayed_work 500])"
  by (simp add: prod_eq_iff refill_state refill_events ex_init_eq ARCH_RNG_BUF_SIZE_def)

text \<open>C2, amended: the work function refills if and only if the index is above
  \<open>ARCH_RNG_BUF_SIZE\<close>, the value a failed request leaves behind. Then it fetches
  32 bytes from the TRNG, seeds the DRNG with them in a zeroed parameter block,
  generates all 2048 bytes of the buffer and sets the index to 2048. With an index of
  at most 2048, 0 included, it makes no hardware call and leaves the buffer and the
  index unchanged. In both cases the last call re-arms the work.\<close>

theorem refill_iff_index_wrapped:
  "(ARCH_RNG_BUF_SIZE < arch_rng_buf_idx st \<longrightarrow>
      arch_rng_refill_buffer HZ hw st =
        (st\<lparr>arch_rng_buf :=
              map_option
                (\<lambda>_. bytes_of
                   (cpacf_prno_gen hw
                      (cpacf_prno_seed hw (replicate 240 0) (bytes_of (cpacf_trng hw) 32)))
                   2048)
                (arch_rng_buf st),
            arch_rng_buf_idx := ARCH_RNG_BUF_SIZE\<rparr>,
         [CPACF_PRNO_TRNG 32,
          CPACF_PRNO_SHA512_DRNG_SEED (bytes_of (cpacf_trng hw) 32),
          CPACF_PRNO_SHA512_DRNG_GEN 2048,
          Queue_delayed_work (ucast (HZ div 2 + (HZ div 2 * ARCH_RNG_BUF_SIZE) div 2048))])
      \<and> length (bytes_of (cpacf_trng hw) 32) = 32
      \<and> length (bytes_of
           (cpacf_prno_gen hw
              (cpacf_prno_seed hw (replicate 240 0) (bytes_of (cpacf_trng hw) 32)))
           2048) = unat ARCH_RNG_BUF_SIZE)
   \<and> (arch_rng_buf_idx st \<le> ARCH_RNG_BUF_SIZE \<longrightarrow>
      arch_rng_refill_buffer HZ hw st =
        (st, [Queue_delayed_work (ucast (HZ div 2 + (HZ div 2 * arch_rng_buf_idx st) div 2048))]))"
  by (auto simp add: prod_eq_iff refill_state refill_events length_bytes_of
      ARCH_RNG_BUF_SIZE_def)

theorem refill_iff_index_wrapped_witness:
  "ARCH_RNG_BUF_SIZE < arch_rng_buf_idx ex_wrapped
   \<and> arch_rng_buf_idx (fst (arch_rng_refill_buffer 1000 ex_hw ex_wrapped)) = 2048
   \<and> queued_delays (snd (arch_rng_refill_buffer 1000 ex_hw ex_wrapped)) = [1000]
   \<and> arch_rng_buf_idx ex_five \<le> ARCH_RNG_BUF_SIZE
   \<and> arch_rng_refill_buffer 1000 ex_hw ex_five = (ex_five, [Queue_delayed_work 501])"
proof -
  have h1: "ARCH_RNG_BUF_SIZE < arch_rng_buf_idx ex_wrapped"
    by (simp add: ex_wrapped_eq ex_init_eq ARCH_RNG_BUF_SIZE_def)
  have h2: "arch_rng_buf_idx ex_five \<le> ARCH_RNG_BUF_SIZE"
    by (simp add: ex_five_eq ex_full_eq ARCH_RNG_BUF_SIZE_def)
  show ?thesis
    using h1 h2 refill_iff_index_wrapped [of ex_wrapped 1000 ex_hw]
      refill_iff_index_wrapped [of ex_five 1000 ex_hw]
    by (simp add: ARCH_RNG_BUF_SIZE_def ex_five_eq)
qed

subsection \<open>The delay of the next run\<close>

text \<open>C6: every run of the work function re-arms the work exactly once, with the
  delay \<open>ARCH_REFILL_TICKS + (ARCH_REFILL_TICKS * R) div ARCH_RNG_BUF_SIZE\<close> in exact
  (unbounded) integer arithmetic, \<open>R\<close> being the index after the refill of that run,
  if there was one. \<open>HZ\<close> is below \<open>2^22\<close> (it is at most a few thousand in any
  kernel configuration), so that the 32-bit product cannot wrap.\<close>

theorem refill_delay_exact:
  assumes "HZ < 2 ^ 22"
  shows "map unat (queued_delays (snd (arch_rng_refill_buffer HZ hw st))) =
    [unat (ARCH_REFILL_TICKS HZ)
       + (unat (ARCH_REFILL_TICKS HZ)
            * unat (arch_rng_buf_idx (fst (arch_rng_refill_buffer HZ hw st))))
         div unat ARCH_RNG_BUF_SIZE]"
proof -
  let ?R = "arch_rng_buf_idx (fst (arch_rng_refill_buffer HZ hw st))"
  have "?R \<le> 2048" using refill_idx_le [of HZ hw st] by (simp add: ARCH_RNG_BUF_SIZE_def)
  then have d: "unat (HZ div 2 + (HZ div 2 * ?R) div 2048) =
      unat HZ div 2 + (unat HZ div 2 * unat ?R) div 2048"
    using assms by (rule delay_exact [rotated])
  have "queued_delays (snd (arch_rng_refill_buffer HZ hw st)) =
      [ucast (HZ div 2 + (HZ div 2 * ?R) div 2048)]"
    by (simp add: refill_events)
  then show ?thesis
    using d by (simp add: unat_ucast_u32_u64 ARCH_REFILL_TICKS_def ARCH_RNG_BUF_SIZE_def unat_div)
qed

theorem refill_delay_exact_witness:
  "(1000 :: u32) < 2 ^ 22
   \<and> unat (ARCH_REFILL_TICKS 1000) = 500
   \<and> arch_rng_buf_idx (fst (arch_rng_refill_buffer 1000 ex_hw ex_full)) = 2048
   \<and> map unat (queued_delays (snd (arch_rng_refill_buffer 1000 ex_hw ex_full))) = [1000]
   \<and> arch_rng_buf_idx (fst (arch_rng_refill_buffer 1000 ex_hw ex_half)) = 1024
   \<and> map unat (queued_delays (snd (arch_rng_refill_buffer 1000 ex_hw ex_half))) = [750]
   \<and> arch_rng_buf_idx (fst (arch_rng_refill_buffer 1000 ex_hw ex_wrapped)) = 2048
   \<and> map unat (queued_delays (snd (arch_rng_refill_buffer 1000 ex_hw ex_wrapped))) = [1000]"
proof -
  have h: "(1000 :: u32) < 2 ^ 22" by simp
  show ?thesis
    using refill_delay_exact [OF h, of ex_hw ex_full]
      refill_delay_exact [OF h, of ex_hw ex_half]
      refill_delay_exact [OF h, of ex_hw ex_wrapped]
    by (simp add: refill_state ex_full_eq ex_half_eq ex_wrapped_eq ex_init_eq
        ARCH_RNG_BUF_SIZE_def ARCH_REFILL_TICKS_def)
qed

subsection \<open>Initialisation\<close>

text \<open>C7: if the TRNG function or the DRNG generate function is missing,
  \<open>s390_arch_random_init\<close> returns 0 without any call (nothing is allocated) and
  without changing any variable, so the flag stays false. If both are there and the
  allocation fails, it returns \<open>-ENOMEM\<close> and the flag stays as it was. If the
  allocation succeeds, it queues the work with the delay \<open>ARCH_REFILL_TICKS\<close> and
  then enables the flag. Neither of the other two functions changes the flag.\<close>

theorem init_behaviour:
  "s390_arch_random_init HZ False has_drng_gen kmalloc st = (Inr 0, st, [])
   \<and> s390_arch_random_init HZ has_trng False kmalloc st = (Inr 0, st, [])
   \<and> s390_arch_random_init HZ True True None st =
       (Inl ENOMEM, st\<lparr>arch_rng_buf := None\<rparr>, [Kmalloc 2048])
   \<and> s390_arch_random_available (st\<lparr>arch_rng_buf := None\<rparr>) = s390_arch_random_available st
   \<and> s390_arch_random_init HZ True True (Some mem) st =
       (Inr 0,
        st\<lparr>arch_rng_buf := Some (bytes_of mem 2048), s390_arch_random_available := True\<rparr>,
        [Kmalloc 2048, Queue_delayed_work (ucast (ARCH_REFILL_TICKS HZ)), Static_branch_enable])
   \<and> s390_arch_random_available
        (snd (snd (s390_arch_random_generate st spin_trylock nbytes))) =
       s390_arch_random_available st
   \<and> s390_arch_random_available (fst (arch_rng_refill_buffer HZ hw st)) =
       s390_arch_random_available st"
  by (simp add: s390_arch_random_init_def s390_arch_random_generate_def refill_state
      ARCH_RNG_BUF_SIZE_def Let_def)

theorem init_behaviour_witness:
  "s390_arch_random_init 1000 False True (Some ex_mem) boot_state = (Inr 0, boot_state, [])
   \<and> s390_arch_random_init 1000 True False (Some ex_mem) boot_state = (Inr 0, boot_state, [])
   \<and> s390_arch_random_init 1000 True True None boot_state =
       (Inl ENOMEM, boot_state, [Kmalloc 2048])
   \<and> s390_arch_random_init 1000 True True (Some ex_mem) boot_state =
       (Inr 0, ex_init, [Kmalloc 2048, Queue_delayed_work 500, Static_branch_enable])
   \<and> s390_arch_random_available boot_state = False
   \<and> s390_arch_random_available ex_init = True"
  using init_behaviour [where HZ = 1000 and st = boot_state and kmalloc = "Some ex_mem"
      and has_trng = True and has_drng_gen = True and mem = ex_mem
      and spin_trylock = True and nbytes = 1 and hw = ex_hw]
  by (simp add: boot_state_def ex_init_eq ARCH_REFILL_TICKS_def)

subsection \<open>Sequences\<close>

lemma run_append: "run HZ st (xs @ ys) = run HZ (run HZ st xs) ys"
  by (induction xs arbitrary: st) simp_all

lemma served_append:
  "served HZ st (xs @ ys) = served HZ st xs + served HZ (run HZ st xs) ys"
proof (induction xs arbitrary: st)
  case Nil
  show ?case by simp
next
  case (Cons x xs)
  then show ?case by (cases x) simp_all
qed

lemma counter_step:
  "s390_arch_random_counter (step HZ st x) =
     s390_arch_random_counter st + of_nat (served HZ st [x])"
proof (cases x)
  case (Extract t n)
  then show ?thesis
    by (simp add: s390_arch_random_generate_def Let_def)
next
  case (Fire hw)
  then show ?thesis by (simp add: refill_state)
qed

lemma counter_run:
  "s390_arch_random_counter (run HZ st ops) =
     s390_arch_random_counter st + of_nat (served HZ st ops)"
proof (induction ops arbitrary: st)
  case Nil
  show ?case by simp
next
  case (Cons x xs)
  have "served HZ st (x # xs) = served HZ st [x] + served HZ (step HZ st x) xs"
    using served_append [of HZ st "[x]" xs] by simp
  then show ?case
    by (simp add: Cons.IH counter_step)
qed

lemma unat_counter_run:
  assumes "unat (s390_arch_random_counter st) + served HZ st ops < 2 ^ 64"
  shows "unat (s390_arch_random_counter (run HZ st ops)) =
     unat (s390_arch_random_counter st) + served HZ st ops"
proof -
  have s: "served HZ st ops < 2 ^ 64" using assms by simp
  then have "unat (of_nat (served HZ st ops) :: u64) = served HZ st ops"
    by (simp add: unat_of_nat)
  then show ?thesis
    using assms unat_add_lem [of "s390_arch_random_counter st" "of_nat (served HZ st ops) :: u64"]
    by (simp add: counter_run)
qed


lemma round_from_zero:
  assumes "arch_rng_buf_idx st = 0"
  shows "arch_rng_buf_idx (run HZ st ex_round) = 0"
    and "s390_arch_random_counter (run HZ st ex_round) = s390_arch_random_counter st + 2048"
  using assms
  by (simp_all add: ex_round_def generate_locked refill_state ARCH_RNG_BUF_SIZE_def)

lemma rounds_from_zero:
  assumes "arch_rng_buf_idx st = 0"
  shows "arch_rng_buf_idx (run HZ st (concat (replicate k ex_round))) = 0
    \<and> s390_arch_random_counter (run HZ st (concat (replicate k ex_round))) =
        s390_arch_random_counter st + 2048 * of_nat k"
  using assms
proof (induction k arbitrary: st)
  case 0
  then show ?case by simp
next
  case (Suc k)
  have "arch_rng_buf_idx (run HZ st ex_round) = 0"
    using Suc.prems by (rule round_from_zero(1))
  from Suc.IH [OF this] show ?case
    using round_from_zero(2) [OF Suc.prems, of HZ]
    by (simp add: run_append algebra_simps)
qed

lemma ex_rounds_state:
  "arch_rng_buf_idx (run 1000 ex_init ex_rounds) = 2048"
  "s390_arch_random_counter (run 1000 ex_init ex_rounds) = 18446744073709549568"
proof -
  let ?st = "run 1000 ex_init (concat (replicate 9007199254740991 ex_round))"
  have z: "arch_rng_buf_idx ex_init = 0" by (simp add: ex_init_eq)
  have i: "arch_rng_buf_idx ?st = 0"
    and c: "s390_arch_random_counter ?st = 18446744073709549568"
    using rounds_from_zero [OF z, of 1000 9007199254740991] by (simp_all add: ex_init_eq)
  show "arch_rng_buf_idx (run 1000 ex_init ex_rounds) = 2048"
    using i by (simp add: ex_rounds_def run_append generate_locked refill_state
        ARCH_RNG_BUF_SIZE_def)
  show "s390_arch_random_counter (run 1000 ex_init ex_rounds) = 18446744073709549568"
    using i c by (simp add: ex_rounds_def run_append generate_locked refill_state
        ARCH_RNG_BUF_SIZE_def)
qed

subsection \<open>The counter of served bytes\<close>

text \<open>C8, as the spec has it: the counter never decreases across any operation. The
  counter has 64 bits and the additions wrap: after \<open>2^53 - 1\<close> rounds in which
  the whole buffer is served, the counter stands at \<open>2^64 - 2048\<close>; the next request
  for 2048 bytes returns true and takes the counter to 0.\<close>

theorem counter_wraps_counterexample:
  "unat (s390_arch_random_counter (run 1000 ex_init ex_rounds)) = 18446744073709549568
   \<and> fst (s390_arch_random_generate (run 1000 ex_init ex_rounds) True 2048) = True
   \<and> unat (s390_arch_random_counter (run 1000 ex_init (ex_rounds @ [Extract True 2048]))) = 0
   \<and> unat (s390_arch_random_counter (run 1000 ex_init (ex_rounds @ [Extract True 2048])))
       < unat (s390_arch_random_counter (run 1000 ex_init ex_rounds))"
  by (simp add: run_append ex_rounds_state generate_locked ARCH_RNG_BUF_SIZE_def)

text \<open>C8, amended: after any sequence of requests and runs of the work function the
  counter has advanced by the sum of the sizes of the requests that returned true,
  modulo \<open>2^64\<close>; and as long as that sum, added to the starting value, stays below
  \<open>2^64\<close>, no operation decreases the counter.\<close>

theorem counter_is_sum_of_served:
  "s390_arch_random_counter (run HZ st ops) =
     s390_arch_random_counter st + of_nat (served HZ st ops)
   \<and> (unat (s390_arch_random_counter st) + served HZ st (ops @ [x]) < 2 ^ 64 \<longrightarrow>
        unat (s390_arch_random_counter (run HZ st ops))
          \<le> unat (s390_arch_random_counter (run HZ st (ops @ [x]))))"
proof (intro conjI impI)
  show "s390_arch_random_counter (run HZ st ops) =
      s390_arch_random_counter st + of_nat (served HZ st ops)"
    by (rule counter_run)
next
  assume b: "unat (s390_arch_random_counter st) + served HZ st (ops @ [x]) < 2 ^ 64"
  have le: "served HZ st ops \<le> served HZ st (ops @ [x])"
    by (simp add: served_append)
  then have "unat (s390_arch_random_counter st) + served HZ st ops < 2 ^ 64"
    using b by simp
  then show "unat (s390_arch_random_counter (run HZ st ops))
      \<le> unat (s390_arch_random_counter (run HZ st (ops @ [x])))"
    using b le by (simp add: unat_counter_run)
qed

theorem counter_is_sum_of_served_witness:
  "served 1000 ex_init [Extract True 1, Fire ex_hw, Extract True 2043, Extract True 6] = 2043
   \<and> s390_arch_random_counter
        (run 1000 ex_init [Extract True 1, Fire ex_hw, Extract True 2043, Extract True 6]) = 2043
   \<and> unat (s390_arch_random_counter ex_init)
        + served 1000 ex_init ([Extract True 1, Fire ex_hw] @ [Extract True 2043]) < 2 ^ 64
   \<and> unat (s390_arch_random_counter (run 1000 ex_init [Extract True 1, Fire ex_hw]))
       \<le> unat (s390_arch_random_counter
            (run 1000 ex_init ([Extract True 1, Fire ex_hw] @ [Extract True 2043])))"
proof -
  have s1: "served 1000 ex_init [Extract True 1, Fire ex_hw, Extract True 2043, Extract True 6]
      = 2043"
    by (simp add: ex_init_eq generate_locked refill_state ARCH_RNG_BUF_SIZE_def)
  have s2: "unat (s390_arch_random_counter ex_init)
      + served 1000 ex_init ([Extract True 1, Fire ex_hw] @ [Extract True 2043]) < 2 ^ 64"
    by (simp add: ex_init_eq generate_locked refill_state ARCH_RNG_BUF_SIZE_def)
  show ?thesis
    using s1 s2
      counter_is_sum_of_served [of 1000 ex_init
        "[Extract True 1, Fire ex_hw, Extract True 2043, Extract True 6]" "Fire ex_hw"]
      counter_is_sum_of_served [of 1000 ex_init "[Extract True 1, Fire ex_hw]"
        "Extract True 2043"]
    by (simp add: ex_init_eq generate_locked refill_state ARCH_RNG_BUF_SIZE_def)
qed

subsection \<open>The range of the index\<close>

lemma step_keeps_range:
  assumes "arch_rng_buf_idx st \<le> ARCH_RNG_BUF_SIZE" and "no_underflow HZ st [x]"
  shows "arch_rng_buf_idx (step HZ st x) \<le> ARCH_RNG_BUF_SIZE"
proof (cases x)
  case (Fire hw)
  then show ?thesis by (simp add: refill_idx_le)
next
  case (Extract t n)
  show ?thesis
  proof (cases "t \<and> n \<le> ARCH_RNG_BUF_SIZE")
    case False
    then show ?thesis
      using assms(1) Extract by (auto simp add: s390_arch_random_generate_def)
  next
    case True
    then have "n \<le> arch_rng_buf_idx st"
      using assms(2) Extract by simp
    then have "arch_rng_buf_idx st - n \<le> arch_rng_buf_idx st"
      by (simp add: word_sub_le)
    then have "arch_rng_buf_idx st - n \<le> ARCH_RNG_BUF_SIZE"
      using assms(1) by simp
    then show ?thesis
      using True Extract by (simp add: generate_locked)
  qed
qed

lemma no_underflow_Cons:
  "no_underflow HZ st (x # xs) = (no_underflow HZ st [x] \<and> no_underflow HZ (step HZ st x) xs)"
  by (cases x) simp_all

lemma run_keeps_range:
  assumes "arch_rng_buf_idx st \<le> ARCH_RNG_BUF_SIZE" and "no_underflow HZ st ops"
  shows "arch_rng_buf_idx (run HZ st ops) \<le> ARCH_RNG_BUF_SIZE"
  using assms
proof (induction ops arbitrary: st)
  case Nil
  then show ?case by simp
next
  case (Cons x xs)
  from Cons.prems(2) have a: "no_underflow HZ st [x]" and b: "no_underflow HZ (step HZ st x) xs"
    using no_underflow_Cons [of HZ st x xs] by simp_all
  have "arch_rng_buf_idx (step HZ st x) \<le> ARCH_RNG_BUF_SIZE"
    using Cons.prems(1) a by (rule step_keeps_range)
  from Cons.IH [OF this b] show ?case by simp
qed

lemma generate_true_idx:
  assumes "fst (s390_arch_random_generate st t n)"
  shows "arch_rng_buf_idx (snd (snd (s390_arch_random_generate st t n))) < ARCH_RNG_BUF_SIZE"
  using assms by (simp add: s390_arch_random_generate_def Let_def split: if_splits)

text \<open>C3, as the spec has it: in every state reached from the state after boot by
  requests and runs of the work function the index is at most
  \<open>ARCH_RNG_BUF_SIZE\<close>. The first request for one byte after boot already leaves the
  index at \<open>2^32 - 1\<close>.\<close>

theorem index_range_counterexample:
  "arch_rng_buf_idx ex_init = 0
   \<and> arch_rng_buf_idx (run 1000 ex_init [Extract True 1]) = 0xFFFFFFFF
   \<and> \<not> arch_rng_buf_idx (run 1000 ex_init [Extract True 1]) \<le> ARCH_RNG_BUF_SIZE"
proof -
  have e: "arch_rng_buf_idx (run 1000 ex_init [Extract True 1]) = 0xFFFFFFFF"
    by (simp add: ex_init_eq generate_locked ARCH_RNG_BUF_SIZE_def)
  have i: "arch_rng_buf_idx ex_init = 0"
    by (simp add: ex_init_eq)
  have n: "\<not> (0xFFFFFFFF :: u32) \<le> ARCH_RNG_BUF_SIZE"
    by (simp add: ARCH_RNG_BUF_SIZE_def)
  show ?thesis
    unfolding e using i n by simp
qed

text \<open>C3, amended: the index is an unsigned 32-bit value. From a state with
  \<open>0 \<le> R \<le> ARCH_RNG_BUF_SIZE\<close> (such as the state after boot), every sequence of
  requests and runs of the work function in which no request takes the lock while fewer
  bytes remain than it asks for ends with \<open>0 \<le> R \<le> ARCH_RNG_BUF_SIZE\<close>. A request
  that returns true leaves \<open>R < ARCH_RNG_BUF_SIZE\<close>, and a run of the work function
  leaves \<open>R \<le> ARCH_RNG_BUF_SIZE\<close>, whatever the index was before.\<close>

theorem index_range_without_underflow:
  "(arch_rng_buf_idx st \<le> ARCH_RNG_BUF_SIZE \<and> no_underflow HZ st ops \<longrightarrow>
      arch_rng_buf_idx (run HZ st ops) \<le> ARCH_RNG_BUF_SIZE)
   \<and> (fst (s390_arch_random_generate st spin_trylock nbytes) \<longrightarrow>
      arch_rng_buf_idx (snd (snd (s390_arch_random_generate st spin_trylock nbytes)))
        < ARCH_RNG_BUF_SIZE)
   \<and> arch_rng_buf_idx (fst (arch_rng_refill_buffer HZ hw st)) \<le> ARCH_RNG_BUF_SIZE"
  using run_keeps_range [of st HZ ops] generate_true_idx [of st spin_trylock nbytes]
    refill_idx_le [of HZ hw st]
  by simp

theorem index_range_without_underflow_witness:
  "arch_rng_buf_idx ex_full \<le> ARCH_RNG_BUF_SIZE
   \<and> no_underflow 1000 ex_full
        [Extract True 2043, Extract False 7, Extract True 4000, Fire ex_hw, Extract True 5]
   \<and> arch_rng_buf_idx (run 1000 ex_full
        [Extract True 2043, Extract False 7, Extract True 4000, Fire ex_hw, Extract True 5])
       \<le> ARCH_RNG_BUF_SIZE
   \<and> fst (s390_arch_random_generate ex_full True 2043)
   \<and> arch_rng_buf_idx (snd (snd (s390_arch_random_generate ex_full True 2043)))
       < ARCH_RNG_BUF_SIZE
   \<and> arch_rng_buf_idx (fst (arch_rng_refill_buffer 1000 ex_hw ex_wrapped)) \<le> ARCH_RNG_BUF_SIZE"
proof -
  have h1: "arch_rng_buf_idx ex_full \<le> ARCH_RNG_BUF_SIZE"
    by (simp add: ex_full_eq ARCH_RNG_BUF_SIZE_def)
  have h2: "no_underflow 1000 ex_full
      [Extract True 2043, Extract False 7, Extract True 4000, Fire ex_hw, Extract True 5]"
    by (simp add: ex_full_eq generate_locked generate_contended generate_too_big
        refill_state ARCH_RNG_BUF_SIZE_def)
  have h3: "fst (s390_arch_random_generate ex_full True 2043)"
    by (simp add: ex_full_eq generate_locked ARCH_RNG_BUF_SIZE_def)
  show ?thesis
    using h1 h2 h3
      index_range_without_underflow [of ex_full 1000
        "[Extract True 2043, Extract False 7, Extract True 4000, Fire ex_hw, Extract True 5]"
        True 2043 ex_hw]
      index_range_without_underflow [of ex_wrapped 1000 "[]" True 1 ex_hw]
    by simp
qed

subsection \<open>Requests that are served\<close>

lemma take_drop_nth:
  assumes "k + n \<le> length b"
  shows "take n (drop k b) = map ((!) b) [k..<k + n]"
proof -
  have "take n (drop k (map ((!) b) [0..<length b])) = map ((!) b) [k..<k + n]"
    using assms by (simp add: take_map drop_map)
  then show ?thesis by (simp add: map_nth)
qed

text \<open>C5, as the spec has it: with the lock taken, \<open>nbytes \<le> ARCH_RNG_BUF_SIZE\<close> and
  \<open>R \<ge> nbytes\<close> the call returns true. After a failed request the index is
  \<open>2^32 - 1\<close>, which is not less than any request, and the call returns false.\<close>

theorem generate_served_counterexample:
  "(1 :: u32) \<le> ARCH_RNG_BUF_SIZE
   \<and> 1 \<le> arch_rng_buf_idx ex_wrapped
   \<and> s390_arch_random_generate ex_wrapped True 1 =
       (False, Untouched, ex_wrapped\<lparr>arch_rng_buf_idx := 0xFFFFFFFE\<rparr>)"
  by (simp add: ex_wrapped_eq ex_init_eq generate_locked ARCH_RNG_BUF_SIZE_def)

text \<open>C5, amended: with the lock taken, the buffer allocated, \<open>nbytes \<le> R \<le>
  ARCH_RNG_BUF_SIZE\<close>, and either \<open>nbytes > 0\<close> or \<open>R < ARCH_RNG_BUF_SIZE\<close>, the
  call returns true, copies exactly the \<open>nbytes\<close> bytes at the offsets from
  \<open>R - nbytes\<close> up to \<open>R\<close> (excluded) to the caller, sets the index to
  \<open>R - nbytes\<close> and adds \<open>nbytes\<close> to the counter.\<close>

theorem generate_serves_tail:
  assumes "arch_rng_buf st = Some b" and "length b = unat ARCH_RNG_BUF_SIZE"
    and "nbytes \<le> arch_rng_buf_idx st" and "arch_rng_buf_idx st \<le> ARCH_RNG_BUF_SIZE"
    and "0 < nbytes \<or> arch_rng_buf_idx st < ARCH_RNG_BUF_SIZE"
  shows "s390_arch_random_generate st True nbytes =
      (True,
       Copied (map ((!) b) [unat (arch_rng_buf_idx st) - unat nbytes ..< unat (arch_rng_buf_idx st)]),
       st\<lparr>arch_rng_buf_idx := arch_rng_buf_idx st - nbytes,
          s390_arch_random_counter := s390_arch_random_counter st + ucast nbytes\<rparr>)
    \<and> unat (arch_rng_buf_idx st - nbytes) = unat (arch_rng_buf_idx st) - unat nbytes
    \<and> length (map ((!) b)
         [unat (arch_rng_buf_idx st) - unat nbytes ..< unat (arch_rng_buf_idx st)]) = unat nbytes
    \<and> unat (ucast nbytes :: u64) = unat nbytes"
proof -
  let ?R = "arch_rng_buf_idx st"
  have n_le: "unat nbytes \<le> unat ?R"
    using assms(3) by (simp add: word_le_nat_alt)
  have r_le: "unat ?R \<le> length b"
    using assms(2,4) by (simp add: word_le_nat_alt)
  have sub: "unat (?R - nbytes) = unat ?R - unat nbytes"
    using assms(3) by (simp add: unat_sub)
  have lt: "?R - nbytes < ARCH_RNG_BUF_SIZE"
    using assms(3,4,5) by (auto simp add: unat_arith_simps)
  have size: "nbytes \<le> ARCH_RNG_BUF_SIZE"
    using assms(3,4) by simp
  have "memcpy (arch_rng_buf st) (unat (?R - nbytes)) (unat nbytes) =
      Copied (map ((!) b) [unat ?R - unat nbytes ..< unat ?R])"
    using n_le r_le assms(1) take_drop_nth [of "unat ?R - unat nbytes" "unat nbytes" b]
    by (simp add: memcpy_def sub)
  then show ?thesis
    using lt size sub n_le by (simp add: generate_locked unat_ucast_u32_u64)
qed

theorem generate_serves_tail_witness:
  "arch_rng_buf ex_init = Some (bytes_of ex_mem 2048)
   \<and> length (bytes_of ex_mem 2048) = unat ARCH_RNG_BUF_SIZE
   \<and> 0 \<le> arch_rng_buf_idx ex_init \<and> arch_rng_buf_idx ex_init \<le> ARCH_RNG_BUF_SIZE
   \<and> arch_rng_buf_idx ex_init < ARCH_RNG_BUF_SIZE
   \<and> s390_arch_random_generate ex_init True 0 = (True, Copied [], ex_init)
   \<and> (3 :: u32) \<le> 2048
   \<and> fst (s390_arch_random_generate
        \<lparr>s390_arch_random_available = True, s390_arch_random_counter = 0,
         arch_rng_buf = Some (bytes_of ex_mem 2048), arch_rng_buf_idx = 2048\<rparr> True 3)
   \<and> fst (snd (s390_arch_random_generate
        \<lparr>s390_arch_random_available = True, s390_arch_random_counter = 0,
         arch_rng_buf = Some (bytes_of ex_mem 2048), arch_rng_buf_idx = 2048\<rparr> True 3)) =
       Copied [bytes_of ex_mem 2048 ! 2045, bytes_of ex_mem 2048 ! 2046,
               bytes_of ex_mem 2048 ! 2047]
   \<and> snd (snd (s390_arch_random_generate
        \<lparr>s390_arch_random_available = True, s390_arch_random_counter = 0,
         arch_rng_buf = Some (bytes_of ex_mem 2048), arch_rng_buf_idx = 2048\<rparr> True 3)) =
       \<lparr>s390_arch_random_available = True, s390_arch_random_counter = 3,
        arch_rng_buf = Some (bytes_of ex_mem 2048), arch_rng_buf_idx = 2045\<rparr>"
proof -
  let ?b = "bytes_of ex_mem 2048"
  let ?st = "\<lparr>s390_arch_random_available = True, s390_arch_random_counter = 0,
         arch_rng_buf = Some ?b, arch_rng_buf_idx = 2048\<rparr>"
  have b0: "arch_rng_buf ex_init = Some ?b" by (simp add: ex_init_eq)
  have l: "length ?b = unat ARCH_RNG_BUF_SIZE"
    by (simp add: length_bytes_of ARCH_RNG_BUF_SIZE_def)
  have i0: "0 \<le> arch_rng_buf_idx ex_init" by simp
  have i1: "arch_rng_buf_idx ex_init \<le> ARCH_RNG_BUF_SIZE"
    by (simp add: ex_init_eq ARCH_RNG_BUF_SIZE_def)
  have i2: "0 < (0 :: u32) \<or> arch_rng_buf_idx ex_init < ARCH_RNG_BUF_SIZE"
    by (simp add: ex_init_eq ARCH_RNG_BUF_SIZE_def)
  have b1: "arch_rng_buf ?st = Some ?b" by simp
  have j0: "3 \<le> arch_rng_buf_idx ?st" by simp
  have j1: "arch_rng_buf_idx ?st \<le> ARCH_RNG_BUF_SIZE" by (simp add: ARCH_RNG_BUF_SIZE_def)
  have j2: "0 < (3 :: u32) \<or> arch_rng_buf_idx ?st < ARCH_RNG_BUF_SIZE" by simp
  have u: "[2045..<2048] = [2045, 2046, 2047 :: nat]"
    by (simp add: upt_rec)
  show ?thesis
    using b0 l i1 i2 generate_serves_tail [OF b0 l i0 i1 i2]
      generate_serves_tail [OF b1 l j0 j1 j2]
    by (simp add: ex_init_eq u)
qed

subsection \<open>An empty request on a full buffer\<close>

text \<open>C4 says that after a refill every sequence of requests whose sizes sum to at most
  \<open>ARCH_RNG_BUF_SIZE\<close>, sizes of 0 allowed, is served. Right after the refill the
  index is 2048; a request for 0 bytes subtracts nothing, the test
  \<open>arch_rng_buf_idx < ARCH_RNG_BUF_SIZE\<close> fails, and the call returns false although
  the buffer holds 2048 bytes.\<close>

theorem generate_empty_request_on_full_buffer:
  "ex_full = fst (arch_rng_refill_buffer 1000 ex_hw ex_wrapped)
   \<and> arch_rng_buf_idx ex_full = ARCH_RNG_BUF_SIZE
   \<and> (0 :: u32) \<le> ARCH_RNG_BUF_SIZE
   \<and> s390_arch_random_generate ex_full True 0 = (False, Untouched, ex_full)"
  by (simp add: ex_full_def)
    (simp add: refill_state ex_wrapped_eq ex_init_eq generate_locked ARCH_RNG_BUF_SIZE_def)

text \<open>Apart from that case the buffer serves as the spec says. From a state with
  \<open>R \<le> ARCH_RNG_BUF_SIZE\<close> bytes remaining, requests whose sizes sum to at most
  \<open>R\<close> all return true, provided the buffer is not full or the first size is not 0,
  and no buffer offset is handed out twice: the offsets all lie below \<open>R\<close>, from
  \<open>R\<close> minus the sum of the sizes on.\<close>

lemma requests_served_disjoint:
  assumes "arch_rng_buf_idx st \<le> ARCH_RNG_BUF_SIZE"
    and "sum_list (map unat ns) \<le> unat (arch_rng_buf_idx st)"
    and "arch_rng_buf_idx st < ARCH_RNG_BUF_SIZE \<or> ns = [] \<or> 0 < hd ns"
  shows "list_all fst (requests st ns)
    \<and> distinct (concat (map offsets (requests st ns)))
    \<and> set (concat (map offsets (requests st ns)))
        \<subseteq> {unat (arch_rng_buf_idx st) - sum_list (map unat ns) ..< unat (arch_rng_buf_idx st)}"
  using assms
proof (induction ns arbitrary: st)
  case Nil
  show ?case by simp
next
  case (Cons n ns)
  let ?R = "arch_rng_buf_idx st"
  let ?st' = "st\<lparr>arch_rng_buf_idx := ?R - n,
      s390_arch_random_counter := s390_arch_random_counter st + ucast n\<rparr>"
  have n_le: "unat n \<le> unat ?R" using Cons.prems(2) by simp
  then have n_le_w: "n \<le> ?R" by (simp add: word_le_nat_alt)
  have sub: "unat (?R - n) = unat ?R - unat n"
    using n_le_w by (simp add: unat_sub)
  have size: "n \<le> ARCH_RNG_BUF_SIZE" using n_le_w Cons.prems(1) by simp
  have lt: "?R - n < ARCH_RNG_BUF_SIZE"
    using Cons.prems(1,3) n_le_w by (auto simp add: unat_arith_simps)
  have g: "s390_arch_random_generate st True n =
      (True, memcpy (arch_rng_buf st) (unat (?R - n)) (unat n), ?st')"
    using size lt by (simp add: generate_locked)
  have p1: "arch_rng_buf_idx ?st' \<le> ARCH_RNG_BUF_SIZE" using lt by simp
  have p2: "sum_list (map unat ns) \<le> unat (arch_rng_buf_idx ?st')"
    using Cons.prems(2) by (simp add: sub)
  have p3: "arch_rng_buf_idx ?st' < ARCH_RNG_BUF_SIZE \<or> ns = [] \<or> 0 < hd ns"
    using lt by simp
  note ih = Cons.IH [OF p1 p2 p3]
  define S where "S = set (concat (map offsets (requests ?st' ns)))"
  have ih1: "list_all fst (requests ?st' ns)"
    and ih2: "distinct (concat (map offsets (requests ?st' ns)))"
    using ih by blast+
  have rest: "S \<subseteq> {unat ?R - unat n - sum_list (map unat ns) ..< unat ?R - unat n}"
    unfolding S_def using ih by (simp add: sub)
  have r: "requests st (n # ns) = (True, unat ?R - unat n, unat n) # requests ?st' ns"
    by (simp add: g sub)
  have all: "list_all fst (requests st (n # ns))"
    unfolding r using ih1 by simp
  have disj: "set [unat ?R - unat n ..< unat ?R] \<inter> S = {}"
    using rest by auto
  have dist: "distinct (concat (map offsets (requests st (n # ns))))"
    unfolding r using ih2 disj n_le by (simp add: S_def)
  have "set (concat (map offsets (requests st (n # ns)))) = {unat ?R - unat n ..< unat ?R} \<union> S"
    unfolding r using n_le by (simp add: S_def)
  moreover have "{unat ?R - unat n ..< unat ?R} \<union> S
      \<subseteq> {unat ?R - sum_list (map unat (n # ns)) ..< unat ?R}"
  proof -
    have "{unat ?R - unat n - sum_list (map unat ns) ..< unat ?R - unat n}
        \<subseteq> {unat ?R - sum_list (map unat (n # ns)) ..< unat ?R}"
      by auto
    with rest have "S \<subseteq> {unat ?R - sum_list (map unat (n # ns)) ..< unat ?R}"
      by (rule order_trans)
    moreover have "{unat ?R - unat n ..< unat ?R}
        \<subseteq> {unat ?R - sum_list (map unat (n # ns)) ..< unat ?R}"
      by auto
    ultimately show ?thesis by simp
  qed
  ultimately have sub_set: "set (concat (map offsets (requests st (n # ns))))
      \<subseteq> {unat ?R - sum_list (map unat (n # ns)) ..< unat ?R}"
    by simp
  show ?case using all dist sub_set by simp
qed

end
